theory Spec2Isabelle
  imports Main "HOL-Library.Sublist"
begin

section \<open>The Go library functions the program calls\<close>

text \<open>
  A Go \<^verbatim>\<open>string\<close> is a sequence of bytes, here a \<^typ>\<open>string\<close>; a rune is a code point,
  here an \<^typ>\<open>int\<close>.  The functions of this section are those of the packages
  \<^verbatim>\<open>unicode/utf8\<close>, \<^verbatim>\<open>unicode\<close>, \<^verbatim>\<open>strings\<close> and \<^verbatim>\<open>strconv\<close> that
  \<^verbatim>\<open>main.go\<close> calls, written after their documented behaviour.
\<close>

type_synonym rune = int

definition RuneError :: rune where
  "RuneError = 0xFFFD"

definition byte :: "char \<Rightarrow> int" where
  "byte c = of_char c"

definition between :: "int \<Rightarrow> int \<Rightarrow> char \<Rightarrow> bool" where
  "between lo hi c = (lo \<le> byte c \<and> byte c \<le> hi)"

text \<open>
  \<^verbatim>\<open>utf8.DecodeRuneInString\<close>: the first rune of the string and its width in bytes; an
  ill-formed or truncated encoding is \<^verbatim>\<open>(RuneError, 1)\<close>, the empty string
  \<^verbatim>\<open>(RuneError, 0)\<close>.
\<close>

fun DecodeRune :: "string \<Rightarrow> rune \<times> nat" where
  "DecodeRune [] = (RuneError, 0)"
| "DecodeRune (c # cs) =
     (let b0 = byte c in
      if b0 < 0x80 then (b0, 1)
      else if 0xC2 \<le> b0 \<and> b0 \<le> 0xDF then
        (case cs of
           c1 # _ \<Rightarrow>
             if between 0x80 0xBF c1 then ((b0 mod 32) * 64 + byte c1 mod 64, 2)
             else (RuneError, 1)
         | _ \<Rightarrow> (RuneError, 1))
      else if 0xE0 \<le> b0 \<and> b0 \<le> 0xEF then
        (case cs of
           c1 # c2 # _ \<Rightarrow>
             if between (if b0 = 0xE0 then 0xA0 else 0x80) (if b0 = 0xED then 0x9F else 0xBF) c1
                \<and> between 0x80 0xBF c2
             then ((b0 mod 16) * 4096 + (byte c1 mod 64) * 64 + byte c2 mod 64, 3)
             else (RuneError, 1)
         | _ \<Rightarrow> (RuneError, 1))
      else if 0xF0 \<le> b0 \<and> b0 \<le> 0xF4 then
        (case cs of
           c1 # c2 # c3 # _ \<Rightarrow>
             if between (if b0 = 0xF0 then 0x90 else 0x80) (if b0 = 0xF4 then 0x8F else 0xBF) c1
                \<and> between 0x80 0xBF c2 \<and> between 0x80 0xBF c3
             then ((b0 mod 8) * 262144 + (byte c1 mod 64) * 4096 + (byte c2 mod 64) * 64
                   + byte c3 mod 64, 4)
             else (RuneError, 1)
         | _ \<Rightarrow> (RuneError, 1))
      else (RuneError, 1))"

text \<open>
  \<^verbatim>\<open>for i, c := range s\<close> over a string: the runes of \<open>s\<close> in order, each with the bytes
  it was decoded from.
\<close>

function runes :: "string \<Rightarrow> (rune \<times> string) list" where
  "runes [] = []"
| "runes (c # cs) =
     (let (r, w) = DecodeRune (c # cs) in (r, take w (c # cs)) # runes (drop (w - 1) cs))"
  by pat_completeness auto
termination
  by (relation "measure length") auto

text \<open>
  \<^verbatim>\<open>utf8.DecodeLastRuneInString\<close>: the last rune of the string and its width.  It steps
  back over at most three bytes to the nearest byte that can start a rune and decodes
  from there; when that rune does not end where the string ends, the result is
  \<^verbatim>\<open>(RuneError, 1)\<close>.
\<close>

definition RuneStart :: "char \<Rightarrow> bool" where
  "RuneStart c = (\<not> between 0x80 0xBF c)"

definition DecodeLastRune :: "string \<Rightarrow> rune \<times> nat" where
  "DecodeLastRune s =
     (let n = length s in
      if n = 0 then (RuneError, 0)
      else if byte (s ! (n - 1)) < 0x80 then (byte (s ! (n - 1)), 1)
      else
        let start =
              (case find (\<lambda>k. k \<le> n \<and> RuneStart (s ! (n - k))) [2, 3, 4] of
                 Some k \<Rightarrow> n - k
               | None \<Rightarrow> n - 5);
            (r, size) = DecodeRune (drop start s)
        in if start + size \<noteq> n then (RuneError, 1) else (r, size))"

text \<open>\<^verbatim>\<open>unicode.IsSpace\<close>: the code points with the Unicode White\_Space property.\<close>

definition IsSpace :: "rune \<Rightarrow> bool" where
  "IsSpace r =
     (r \<in> {0x09, 0x0A, 0x0B, 0x0C, 0x0D, 0x20, 0x85, 0xA0, 0x1680,
            0x2028, 0x2029, 0x202F, 0x205F, 0x3000}
      \<or> (0x2000 \<le> r \<and> r \<le> 0x200A))"

text \<open>
  \<^verbatim>\<open>strings.TrimSpace\<close>: the string without its leading and trailing white space.
\<close>

fun TrimLeft_runes :: "(rune \<times> string) list \<Rightarrow> string" where
  "TrimLeft_runes [] = []"
| "TrimLeft_runes ((r, bs) # rs) =
     (if IsSpace r then TrimLeft_runes rs else concat (map snd ((r, bs) # rs)))"

function TrimRight_loop :: "string \<Rightarrow> string" where
  "TrimRight_loop s =
     (if s = [] then []
      else let (r, w) = DecodeLastRune s in
        if IsSpace r then TrimRight_loop (butlast (take (length s - (w - 1)) s)) else s)"
  by pat_completeness auto
termination
  by (relation "measure length") auto

definition TrimSpace :: "string \<Rightarrow> string" where
  "TrimSpace s = TrimRight_loop (TrimLeft_runes (runes s))"

text \<open>
  \<^verbatim>\<open>strings.Fields\<close>: the maximal runs of runes that are not white space, in order;
  the empty list when the string has white space only.  The accumulator \<open>cur\<close> is the
  field in progress (empty when there is none, as a field has at least one rune).
\<close>

fun FieldsFunc_loop :: "(rune \<Rightarrow> bool) \<Rightarrow> (rune \<times> string) list \<Rightarrow> string \<Rightarrow> string list" where
  "FieldsFunc_loop f [] cur = (if cur = [] then [] else [cur])"
| "FieldsFunc_loop f ((r, bs) # rs) cur =
     (if f r then (if cur = [] then FieldsFunc_loop f rs [] else cur # FieldsFunc_loop f rs [])
      else FieldsFunc_loop f rs (cur @ bs))"

definition Fields :: "string \<Rightarrow> string list" where
  "Fields s = FieldsFunc_loop IsSpace (runes s) []"

text \<open>\<^verbatim>\<open>strings.Join\<close>: the elements with the separator between neighbours.\<close>

fun Join :: "string list \<Rightarrow> string \<Rightarrow> string" where
  "Join [] sep = []"
| "Join [a] sep = a"
| "Join (a # b # bs) sep = a @ sep @ Join (b # bs) sep"

text \<open>
  \<^verbatim>\<open>strconv.Itoa\<close>: the decimal numeral of an integer, with a minus sign when negative.
\<close>

definition digit :: "nat \<Rightarrow> char" where
  "digit d = ''0123456789'' ! d"

function digits :: "nat \<Rightarrow> string" where
  "digits n = (if n < 10 then [digit n] else digits (n div 10) @ [digit (n mod 10)])"
  by pat_completeness auto
termination
  by (relation "measure id") auto

definition Itoa :: "int \<Rightarrow> string" where
  "Itoa i = (if i < 0 then CHR ''-'' # digits (nat (- i)) else digits (nat i))"

text \<open>
  \<^verbatim>\<open>strconv.Atoi\<close>, which is \<^verbatim>\<open>ParseInt(s, 10, 0)\<close>: an optional sign and one or more
  decimal digits.  Anything else is a syntax error; a value outside the range of
  \<^verbatim>\<open>int\<close> is a range error (\<^verbatim>\<open>int\<close> has 64 bits on the platforms the program is built
  for).
\<close>

datatype error =
    ErrSyntax | ErrRange | ErrURL | ErrNotExist | ErrRead | ErrJSON

definition isDigit :: "char \<Rightarrow> bool" where
  "isDigit c = between 0x30 0x39 c"

fun ParseUint_loop :: "string \<Rightarrow> int \<Rightarrow> error + int" where
  "ParseUint_loop [] n = Inr n"
| "ParseUint_loop (c # cs) n =
     (if \<not> isDigit c then Inl ErrSyntax
      else if 2 ^ 64 \<le> n * 10 + (byte c - 0x30) then Inl ErrRange
      else ParseUint_loop cs (n * 10 + (byte c - 0x30)))"

definition ParseUint :: "string \<Rightarrow> error + int" where
  "ParseUint s = (if s = [] then Inl ErrSyntax else ParseUint_loop s 0)"

definition Atoi :: "string \<Rightarrow> error + int" where
  "Atoi s =
     (if s = [] then Inl ErrSyntax
      else
        let neg = (hd s = CHR ''-'');
            s1 = (if hd s = CHR ''+'' \<or> hd s = CHR ''-'' then tl s else s)
        in case ParseUint s1 of
             Inl e \<Rightarrow> Inl e
           | Inr un \<Rightarrow>
               if \<not> neg \<and> 2 ^ 63 \<le> un then Inl ErrRange
               else if neg \<and> 2 ^ 63 < un then Inl ErrRange
               else Inr (if neg then - un else un))"

text \<open>
  \<^verbatim>\<open>url.Parse\<close> is a parameter of the model.  Of its result the program reads the
  scheme, the user name, \<^verbatim>\<open>Hostname()\<close>, \<^verbatim>\<open>Port()\<close>, \<^verbatim>\<open>Query()\<close> and the fragment.
\<close>

record URL =
  Scheme :: string
  Username :: string
  Hostname :: string
  Port :: string
  Query :: "string \<rightharpoonup> string list"
  Fragment :: string

text \<open>\<^verbatim>\<open>url.Values.Get\<close>: the first value of the key, the empty string when it has none.\<close>

definition Values_Get :: "(string \<rightharpoonup> string list) \<Rightarrow> string \<Rightarrow> string" where
  "Values_Get q k = (case q k of None \<Rightarrow> [] | Some [] \<Rightarrow> [] | Some (v # _) \<Rightarrow> v)"

section \<open>The data model of main.go\<close>

record BaseOutbound =
  Type :: string
  Tag :: string

record TLSOptions =
  Enabled :: bool
  ServerName :: string
  Insecure :: bool

record TrojanOutbound = BaseOutbound +
  Server :: string
  ServerPort :: int
  Password :: string
  TLS :: TLSOptions

record SelectorOutbound = BaseOutbound +
  Outbounds :: "string list"

record GroupOutbound = SelectorOutbound +
  InterruptExistConnections :: bool

text \<open>
  An element of the \<^verbatim>\<open>[]any\<close> that \<^verbatim>\<open>loadSelectors\<close> returns: the bytes of a
  \<^verbatim>\<open>json.RawMessage\<close>, or a decoded \<^verbatim>\<open>SelectorOutbound\<close>.
\<close>

datatype entry = RawMessage string | Selector SelectorOutbound

section \<open>The URI parser\<close>

text \<open>\<^verbatim>\<open>outboundKey\<close> (lines 52-54).\<close>

definition outboundKey :: "string \<Rightarrow> int \<Rightarrow> string" where
  "outboundKey server port = server @ '':'' @ Itoa port"

text \<open>
  \<^verbatim>\<open>removeEmoji\<close> (lines 340-347): \<^verbatim>\<open>strings.Map\<close> drops the runes the mapping sends to
  \<open>-1\<close> and writes the others back in UTF-8, where an ill-formed byte has become
  \<^verbatim>\<open>RuneError\<close>.  The table \<^verbatim>\<open>unicode.So\<close> is the parameter \<open>So\<close>.
\<close>

definition WriteRune :: "rune \<times> string \<Rightarrow> string" where
  "WriteRune rb = (if fst rb = RuneError then [CHR 0xEF, CHR 0xBF, CHR 0xBD] else snd rb)"

definition removeEmoji :: "(rune \<Rightarrow> bool) \<Rightarrow> string \<Rightarrow> string" where
  "removeEmoji So s = concat (map (\<lambda>rb. if So (fst rb) then [] else WriteRune rb) (runes s))"

text \<open>
  \<^verbatim>\<open>parseTrojanURL\<close> (lines 56-103).  The result is the Go pair of a record (or
  \<^verbatim>\<open>nil\<close>) and an error (or \<^verbatim>\<open>nil\<close>).  After the first check \<^verbatim>\<open>err\<close> is \<^verbatim>\<open>nil\<close>, and
  that is the value line 72 returns.
\<close>

definition parseTrojanURL ::
  "(rune \<Rightarrow> bool) \<Rightarrow> (string \<Rightarrow> error + URL) \<Rightarrow> string
     \<Rightarrow> TrojanOutbound option \<times> error option" where
  "parseTrojanURL So url_Parse raw =
     (case url_Parse (TrimSpace raw) of
        Inl err \<Rightarrow> (None, Some err)
      | Inr u \<Rightarrow>
          let err = None in
          if Scheme u \<noteq> ''trojan'' then (None, None)
          else
            let password = Username u;
                host = Hostname u;
                portStr = Port u
            in if portStr = [] then (None, err)
               else
                 (case Atoi portStr of
                    Inl err \<Rightarrow> (None, Some err)
                  | Inr port \<Rightarrow>
                      let q = Query u;
                          allowInsecure = (Values_Get q ''allowInsecure'' = ''1'');
                          sni = Values_Get q ''sni'';
                          rawTag = Fragment u;
                          rawTag = TrimSpace rawTag;
                          tag = TrimSpace (removeEmoji So rawTag)
                      in (Some \<lparr>Type = ''trojan'', Tag = tag, Server = host, ServerPort = port,
                                Password = password,
                                TLS = \<lparr>Enabled = True, ServerName = sni,
                                       Insecure = allowInsecure\<rparr>\<rparr>,
                          None)))"

section \<open>The region classifier\<close>

text \<open>\<^verbatim>\<open>extractRegion\<close> (lines 105-111).\<close>

definition extractRegion :: "string \<Rightarrow> string" where
  "extractRegion tag =
     (let fields = Fields tag in
      if length fields \<le> 1 then tag
      else Join (take (length fields - 1) fields) '' '')"

section \<open>The endpoint registry\<close>

text \<open>
  The first loop of \<^verbatim>\<open>main\<close> (lines 164-190).  Its state is the slice \<^verbatim>\<open>outbounds\<close>
  and the map \<^verbatim>\<open>indexMap\<close>.
\<close>

record registry =
  outbounds :: "TrojanOutbound list"
  indexMap :: "string \<rightharpoonup> nat"

definition registry_init :: registry where
  "registry_init = \<lparr>outbounds = [], indexMap = Map.empty\<rparr>"

text \<open>
  Lines 182-189: overwrite at the recorded index, or append and record the index.  A
  write to a slice out of its range would panic; the recorded index is always in range
  (lemma \<open>registry_put_hit\<close> below), so the list update stands for the write.
\<close>

definition registry_put :: "TrojanOutbound \<Rightarrow> registry \<Rightarrow> registry" where
  "registry_put ob st =
     (let key = outboundKey (Server ob) (ServerPort ob) in
      case indexMap st key of
        Some idx \<Rightarrow> st\<lparr>outbounds := (outbounds st)[idx := ob]\<rparr>
      | None \<Rightarrow> \<lparr>outbounds = outbounds st @ [ob],
                 indexMap = (indexMap st)(key \<mapsto> length (outbounds st))\<rparr>)"

text \<open>Lines 167-190, one line of the input: trim, skip, parse, skip, store.\<close>

definition main_line ::
  "(rune \<Rightarrow> bool) \<Rightarrow> (string \<Rightarrow> error + URL) \<Rightarrow> string \<Rightarrow> registry \<Rightarrow> registry" where
  "main_line So url_Parse line0 st =
     (let line = TrimSpace line0 in
      if line = [] then st
      else
        (case parseTrojanURL So url_Parse line of
           (_, Some err) \<Rightarrow> st
         | (None, None) \<Rightarrow> st
         | (Some ob, None) \<Rightarrow> registry_put ob st))"

definition main_registry ::
  "(rune \<Rightarrow> bool) \<Rightarrow> (string \<Rightarrow> error + URL) \<Rightarrow> string list \<Rightarrow> registry" where
  "main_registry So url_Parse lines = fold (main_line So url_Parse) lines registry_init"

section \<open>Regions, the collapse of singleton regions, and the groups\<close>

text \<open>The second loop of \<^verbatim>\<open>main\<close> (lines 194-207).\<close>

record regions =
  regionTags :: "string \<rightharpoonup> string list"
  regionIndex :: "string \<rightharpoonup> nat"
  regionOrder :: "string list"

definition regions_init :: regions where
  "regions_init = \<lparr>regionTags = Map.empty, regionIndex = Map.empty, regionOrder = []\<rparr>"

text \<open>Reading a map of slices at a key it does not have gives the \<^verbatim>\<open>nil\<close> slice.\<close>

definition tags_at :: "(string \<rightharpoonup> string list) \<Rightarrow> string \<Rightarrow> string list" where
  "tags_at m region = (case m region of None \<Rightarrow> [] | Some tags \<Rightarrow> tags)"

definition main_region :: "TrojanOutbound \<Rightarrow> regions \<Rightarrow> regions" where
  "main_region ob st =
     (let region = extractRegion (Tag ob);
          st1 = (if regionIndex st region = None
                 then st\<lparr>regionIndex := (regionIndex st)(region \<mapsto> length (regionOrder st)),
                         regionOrder := regionOrder st @ [region]\<rparr>
                 else st)
      in st1\<lparr>regionTags := (regionTags st1)(region \<mapsto> tags_at (regionTags st1) region @ [Tag ob])\<rparr>)"

definition main_regions :: "TrojanOutbound list \<Rightarrow> regions" where
  "main_regions obs = fold main_region obs regions_init"

text \<open>
  The third loop (lines 209-222) ranges over the map \<^verbatim>\<open>regionTags\<close>.  Go leaves the
  order of a range over a map open, so the order is the parameter \<open>order\<close>: a list of
  the keys of the map, each once.  The inner loop (lines 213-218) renames the first
  record that carries the tag.
\<close>

fun rename_first :: "string \<Rightarrow> string \<Rightarrow> TrojanOutbound list \<Rightarrow> TrojanOutbound list" where
  "rename_first originalTag region [] = []"
| "rename_first originalTag region (ob # obs) =
     (if Tag ob = originalTag then ob\<lparr>Tag := region\<rparr> # obs
      else ob # rename_first originalTag region obs)"

definition collapse_region ::
  "string \<Rightarrow> TrojanOutbound list \<times> (string \<rightharpoonup> string list)
     \<Rightarrow> TrojanOutbound list \<times> (string \<rightharpoonup> string list)" where
  "collapse_region region s =
     (case snd s region of
        None \<Rightarrow> s
      | Some tags \<Rightarrow>
          if length tags = 1
          then (rename_first (tags ! 0) region (fst s), (snd s)(region \<mapsto> tags[0 := region]))
          else s)"

definition range_order :: "(string \<rightharpoonup> string list) \<Rightarrow> string list \<Rightarrow> bool" where
  "range_order m order = (distinct order \<and> set order = dom m)"

definition main_collapse ::
  "string list \<Rightarrow> TrojanOutbound list \<times> (string \<rightharpoonup> string list)
     \<Rightarrow> TrojanOutbound list \<times> (string \<rightharpoonup> string list)" where
  "main_collapse order s = fold collapse_region order s"

text \<open>The fourth loop (lines 245-279).\<close>

definition main_group :: "(string \<rightharpoonup> string list) \<Rightarrow> string \<Rightarrow> GroupOutbound list" where
  "main_group m region =
     (let tags = tags_at m region in
      if length tags \<le> 1 then []
      else
        let autoTag = region @ ''-auto'';
            urltest = \<lparr>Type = ''urltest'', Tag = autoTag, Outbounds = tags,
                       InterruptExistConnections = False\<rparr>;
            selector = \<lparr>Type = ''selector'', Tag = region, Outbounds = autoTag # tags,
                        InterruptExistConnections = True\<rparr>
        in [urltest, selector])"

definition main_groups :: "string list \<Rightarrow> (string \<rightharpoonup> string list) \<Rightarrow> GroupOutbound list" where
  "main_groups order m = fold (\<lambda>region groupOutbounds. groupOutbounds @ main_group m region) order []"

text \<open>
  Lines 164-279 in one piece: the records written to \<^verbatim>\<open>servers.json\<close>, the groups
  written to \<^verbatim>\<open>groups.json\<close>, and the region order handed to the template merge.
\<close>

record generated =
  servers :: "TrojanOutbound list"
  groups :: "GroupOutbound list"
  regionKeys :: "string list"

definition main_generate :: "string list \<Rightarrow> TrojanOutbound list \<Rightarrow> generated" where
  "main_generate order obs =
     (let rg = main_regions obs;
          s = main_collapse order (obs, regionTags rg)
      in \<lparr>servers = fst s,
          groups = main_groups (regionOrder rg) (snd s),
          regionKeys = regionOrder rg\<rparr>)"

section \<open>The template merge\<close>

text \<open>
  \<^verbatim>\<open>appendUnique\<close> (lines 390-405).  The map \<^verbatim>\<open>seen\<close> of type
  \<^verbatim>\<open>map[string]struct{}\<close> is a set of strings.  The first loop enters every element of
  \<^verbatim>\<open>dst\<close>, the second walks \<^verbatim>\<open>src\<close> and appends the values that are not yet seen.
\<close>

fun appendUnique_seen :: "string list \<Rightarrow> string set \<Rightarrow> string set" where
  "appendUnique_seen [] seen = seen"
| "appendUnique_seen (v # vs) seen = appendUnique_seen vs (insert v seen)"

fun appendUnique_loop :: "string list \<Rightarrow> string set \<Rightarrow> string list \<Rightarrow> string list" where
  "appendUnique_loop [] seen dst = dst"
| "appendUnique_loop (v # vs) seen dst =
     (if v \<in> seen then appendUnique_loop vs seen dst
      else appendUnique_loop vs (insert v seen) (dst @ [v]))"

definition appendUnique :: "string list \<Rightarrow> string list \<Rightarrow> string list" where
  "appendUnique dst src = appendUnique_loop src (appendUnique_seen dst {}) dst"

text \<open>
  \<^verbatim>\<open>loadSelectors\<close> (lines 349-388).  The file system and the JSON decoder are
  parameters: \<open>os_ReadFile\<close> is \<^verbatim>\<open>os.ReadFile\<close>; \<open>json_config\<close> is
  \<^verbatim>\<open>json.Unmarshal(data, &cfg)\<close>, giving \<^verbatim>\<open>cfg.Outbounds\<close>; \<open>json_base\<close> is
  \<^verbatim>\<open>json.Unmarshal(raw, &base)\<close>, giving \<^verbatim>\<open>base.Type\<close>; \<open>json_selector\<close> is
  \<^verbatim>\<open>json.Unmarshal(raw, &sel)\<close>, giving \<^verbatim>\<open>sel\<close>.
\<close>

record collaborators =
  os_ReadFile :: "string \<Rightarrow> error + string"
  json_config :: "string \<Rightarrow> error + string list"
  json_base :: "string \<Rightarrow> error + string"
  json_selector :: "string \<Rightarrow> error + SelectorOutbound"

definition os_IsNotExist :: "error \<Rightarrow> bool" where
  "os_IsNotExist err = (err = ErrNotExist)"

fun loadSelectors_loop :: "collaborators \<Rightarrow> string list \<Rightarrow> entry list \<Rightarrow> error + entry list" where
  "loadSelectors_loop env [] result = Inr result"
| "loadSelectors_loop env (raw # raws) result =
     (case json_base env raw of
        Inl err \<Rightarrow> Inl err
      | Inr baseType \<Rightarrow>
          if baseType \<noteq> ''selector'' then loadSelectors_loop env raws (result @ [RawMessage raw])
          else
            (case json_selector env raw of
               Inl err \<Rightarrow> Inl err
             | Inr sel \<Rightarrow> loadSelectors_loop env raws (result @ [Selector sel])))"

definition loadSelectors :: "collaborators \<Rightarrow> string \<Rightarrow> error + entry list" where
  "loadSelectors env path =
     (case os_ReadFile env path of
        Inl err \<Rightarrow> if os_IsNotExist err then Inr [] else Inl err
      | Inr data \<Rightarrow>
          (case json_config env data of
             Inl err \<Rightarrow> Inl err
           | Inr cfg_Outbounds \<Rightarrow> loadSelectors_loop env cfg_Outbounds []))"

text \<open>
  Lines 299-312 of \<^verbatim>\<open>main\<close>: load the template, stop with \<^verbatim>\<open>log.Fatal\<close> on an error
  (the result \<open>Inl\<close>), and extend the member list of every decoded selector by
  \<^verbatim>\<open>regionOrder\<close>, here \<open>keys\<close>.
\<close>

fun merge_entry :: "string list \<Rightarrow> entry \<Rightarrow> entry" where
  "merge_entry keys (Selector sel) =
     Selector (sel\<lparr>Outbounds := appendUnique (Outbounds sel) keys\<rparr>)"
| "merge_entry keys (RawMessage raw) = RawMessage raw"

definition main_selectors :: "collaborators \<Rightarrow> string list \<Rightarrow> error + entry list" where
  "main_selectors env keys =
     (case loadSelectors env ''config/selectors.scheme.json'' of
        Inl err \<Rightarrow> Inl err
      | Inr selectors \<Rightarrow> Inr (map (merge_entry keys) selectors))"

section \<open>The words of the specification\<close>

text \<open>
  The definitions of this section are not code of the program.  They say what the
  specification says, and the theorems compare them with the loops of \<^verbatim>\<open>main\<close>.
\<close>

text \<open>The identity of an endpoint: the pair of its host and its port.\<close>

definition ident :: "TrojanOutbound \<Rightarrow> string \<times> int" where
  "ident ob = (Server ob, ServerPort ob)"

text \<open>Insertion order of first occurrence: every value once, where it first occurs.\<close>

fun discovery_order :: "'a list \<Rightarrow> 'a list" where
  "discovery_order [] = []"
| "discovery_order (x # xs) = x # removeAll x (discovery_order xs)"

text \<open>The record a line of the input gives, if it gives one.\<close>

definition parsed_line ::
  "(rune \<Rightarrow> bool) \<Rightarrow> (string \<Rightarrow> error + URL) \<Rightarrow> string \<Rightarrow> TrojanOutbound option" where
  "parsed_line So url_Parse line0 =
     (if TrimSpace line0 = [] then None
      else case parseTrojanURL So url_Parse (TrimSpace line0) of
             (Some ob, None) \<Rightarrow> Some ob
           | _ \<Rightarrow> None)"

definition parsed_records ::
  "(rune \<Rightarrow> bool) \<Rightarrow> (string \<Rightarrow> error + URL) \<Rightarrow> string list \<Rightarrow> TrojanOutbound list" where
  "parsed_records So url_Parse lines = List.map_filter (parsed_line So url_Parse) lines"

text \<open>The member labels of a region: the labels classified into it, in record order.\<close>

definition member_labels :: "TrojanOutbound list \<Rightarrow> string \<Rightarrow> string list" where
  "member_labels obs region = map Tag (filter (\<lambda>ob. extractRegion (Tag ob) = region) obs)"

text \<open>
  The post-step of the classifier as the specification words it: the label of the
  single member of a region becomes the region key, every other label stays.
\<close>

definition collapse_labels :: "TrojanOutbound list \<Rightarrow> TrojanOutbound list" where
  "collapse_labels obs =
     map (\<lambda>ob. if length (member_labels obs (extractRegion (Tag ob))) = 1
               then ob\<lparr>Tag := extractRegion (Tag ob)\<rparr> else ob) obs"

text \<open>
  No single member's label is the key of the region of another single member with a
  different label.
\<close>

definition unambiguous_labels :: "TrojanOutbound list \<Rightarrow> bool" where
  "unambiguous_labels obs =
     (\<forall>a \<in> set obs. \<forall>b \<in> set obs.
        length (member_labels obs (extractRegion (Tag a))) = 1 \<and>
        length (member_labels obs (extractRegion (Tag b))) = 1 \<and>
        extractRegion (Tag b) = Tag a \<longrightarrow> Tag b = Tag a)"

text \<open>
  The contract of the registry: a record whose identity is already there replaces the
  record at that position, any other record goes to the end.
\<close>

definition replace_or_append :: "TrojanOutbound \<Rightarrow> TrojanOutbound list \<Rightarrow> TrojanOutbound list" where
  "replace_or_append ob obs =
     (if ident ob \<in> ident ` set obs then map (\<lambda>x. if ident x = ident ob then ob else x) obs
      else obs @ [ob])"

section \<open>Invariants and auxiliary functions\<close>

text \<open>
  The invariant of the first loop: \<^verbatim>\<open>indexMap\<close> holds, for the key of every stored
  record, the index of that record, and nothing else.  With it the write
  \<^verbatim>\<open>outbounds[idx] = *ob\<close> of line 185 is always in range.
\<close>

definition key_of :: "TrojanOutbound \<Rightarrow> string" where
  "key_of ob = outboundKey (Server ob) (ServerPort ob)"

definition registry_inv :: "registry \<Rightarrow> bool" where
  "registry_inv st =
     (\<forall>k i. indexMap st k = Some i \<longleftrightarrow>
            (i < length (outbounds st) \<and> key_of (outbounds st ! i) = k))"

text \<open>
  What the loop of \<^verbatim>\<open>loadSelectors\<close> (lines 365-385) makes of one template entry:
  the entry as it is when its \<^verbatim>\<open>type\<close> is not \<^verbatim>\<open>selector\<close>, the decoded selector
  when it is, an error when a decoder fails.
\<close>

definition load_entry :: "collaborators \<Rightarrow> string \<Rightarrow> error + entry" where
  "load_entry env raw =
     (case json_base env raw of
        Inl err \<Rightarrow> Inl err
      | Inr baseType \<Rightarrow>
          if baseType \<noteq> ''selector'' then Inr (RawMessage raw)
          else (case json_selector env raw of
                  Inl err \<Rightarrow> Inl err
                | Inr sel \<Rightarrow> Inr (Selector sel)))"

section \<open>Sample input\<close>

text \<open>
  The lines used in the examples, with what \<^verbatim>\<open>url.Parse\<close> returns for them: the scheme
  \<^verbatim>\<open>trojan\<close>, the user \<^verbatim>\<open>p\<close>, the query \<^verbatim>\<open>sni=a\<close>, and the host, port and unescaped
  fragment given in the table.  The first two lines are the end-to-end example of the
  specification.  \<open>sample_So\<close> holds the regional indicator symbols, which are in
  \<^verbatim>\<open>unicode.So\<close>; the sample labels have no other rune of that table.
\<close>

definition sample_So :: "rune \<Rightarrow> bool" where
  "sample_So r = (0x1F1E6 \<le> r \<and> r \<le> 0x1F1FF)"

definition sample_URL :: "string \<times> string \<times> string \<Rightarrow> URL" where
  "sample_URL hpf =
     \<lparr>Scheme = ''trojan'', Username = ''p'', Hostname = fst hpf, Port = fst (snd hpf),
      Query = [''sni'' \<mapsto> [''a'']], Fragment = snd (snd hpf)\<rparr>"

definition sample_table :: "(string \<times> string \<times> string \<times> string) list" where
  "sample_table =
     [(''trojan://p@1.2.3.4:443?sni=a#SG%2001'', ''1.2.3.4'', ''443'', ''SG 01''),
      (''trojan://p@1.2.3.4:443?sni=a#SG%2002'', ''1.2.3.4'', ''443'', ''SG 02''),
      (''trojan://p@10.0.0.1:443?sni=a#JP%2001'', ''10.0.0.1'', ''443'', ''JP 01''),
      (''trojan://p@10.0.0.2:443?sni=a#JP%2002'', ''10.0.0.2'', ''443'', ''JP 02''),
      (''trojan://p@10.0.0.3:443?sni=a#US%2001'', ''10.0.0.3'', ''443'', ''US 01''),
      (''trojan://p@10.0.0.4:443?sni=a#JP%2001'', ''10.0.0.4'', ''443'', ''JP 01''),
      (''trojan://p@10.0.0.5:443?sni=a#A%20B%20C'', ''10.0.0.5'', ''443'', ''A B C''),
      (''trojan://p@10.0.0.6:443?sni=a#A%20B'', ''10.0.0.6'', ''443'', ''A B''),
      (''trojan://p@1.2.3.4:0?sni=a#SG%2001'', ''1.2.3.4'', ''0'', ''SG 01''),
      (''trojan://p@1.2.3.4?sni=a#SG%2001'', ''1.2.3.4'', [], ''SG 01''),
      (''trojan://p@1.2.3.4:99999999999999999999?sni=a#SG%2001'', ''1.2.3.4'',
         ''99999999999999999999'', ''SG 01'')]"

definition sample_Parse :: "string \<Rightarrow> error + URL" where
  "sample_Parse s =
     (case map_of sample_table s of None \<Rightarrow> Inl ErrURL | Some hpf \<Rightarrow> Inr (sample_URL hpf))"

definition sample_record :: "string \<Rightarrow> int \<Rightarrow> string \<Rightarrow> TrojanOutbound" where
  "sample_record host port tag =
     \<lparr>Type = ''trojan'', Tag = tag, Server = host, ServerPort = port, Password = ''p'',
      TLS = \<lparr>Enabled = True, ServerName = ''a'', Insecure = False\<rparr>\<rparr>"

text \<open>
  Two endpoints whose labels are \<open>A B C\<close> and \<open>A B\<close>: the region \<open>A B\<close> has the one
  member \<open>A B C\<close>, the region \<open>A\<close> has the one member \<open>A B\<close>.
\<close>

definition sample_nested :: "TrojanOutbound list" where
  "sample_nested =
     outbounds (main_registry sample_So sample_Parse
       [''trojan://p@10.0.0.5:443?sni=a#A%20B%20C'', ''trojan://p@10.0.0.6:443?sni=a#A%20B''])"

text \<open>
  A template with three entries, and what the decoder returns for it.  The two selector
  entries differ in the field \<^verbatim>\<open>default\<close> only; decoding into \<^verbatim>\<open>SelectorOutbound\<close>
  reads \<^verbatim>\<open>type\<close>, \<^verbatim>\<open>tag\<close> and \<^verbatim>\<open>outbounds\<close> and skips every other key.
\<close>

definition sample_selector_a :: string where
  \<open>sample_selector_a =
     ''{"type":"selector","tag":"proxy","outbounds":["direct"],"default":"direct"}''\<close>

definition sample_selector_b :: string where
  \<open>sample_selector_b =
     ''{"type":"selector","tag":"proxy","outbounds":["direct"],"default":"SG"}''\<close>

definition sample_direct :: string where
  \<open>sample_direct = ''{ "type": "direct",  "tag": "direct" }''\<close>

definition sample_template :: string where
  "sample_template =
     ''{'' @ [CHR 0x22] @ ''outbounds'' @ [CHR 0x22] @ '':['' @ sample_selector_a @ '','' @
     sample_selector_b @ '','' @ sample_direct @ '']}''"

definition sample_env :: collaborators where
  "sample_env =
     \<lparr>os_ReadFile = (\<lambda>path. if path = ''config/selectors.scheme.json''
                           then Inr sample_template else Inl ErrNotExist),
      json_config = (\<lambda>data. if data = sample_template
                           then Inr [sample_selector_a, sample_selector_b, sample_direct]
                           else Inl ErrJSON),
      json_base = (\<lambda>raw. if raw = sample_selector_a \<or> raw = sample_selector_b
                         then Inr ''selector''
                         else if raw = sample_direct then Inr ''direct'' else Inl ErrJSON),
      json_selector = (\<lambda>raw. if raw = sample_selector_a \<or> raw = sample_selector_b
                             then Inr \<lparr>Type = ''selector'', Tag = ''proxy'',
                                       Outbounds = [''direct'']\<rparr>
                             else Inl ErrJSON)\<rparr>"

section \<open>Properties\<close>

declare digits.simps [simp del]
declare TrimRight_loop.simps [simp del]

subsection \<open>appendUnique\<close>

lemma appendUnique_seen_eq: "appendUnique_seen vs seen = set vs \<union> seen"
  by (induction vs arbitrary: seen) auto

lemma appendUnique_loop_known:
  "set src \<subseteq> seen \<Longrightarrow> appendUnique_loop src seen dst = dst"
  by (induction src arbitrary: seen dst) auto

lemma appendUnique_loop_set:
  "set (appendUnique_loop src seen dst) = set dst \<union> (set src - seen)"
  by (induction src arbitrary: seen dst) auto

lemma appendUnique_set: "set (appendUnique dst src) = set dst \<union> set src"
  by (auto simp: appendUnique_def appendUnique_seen_eq appendUnique_loop_set)

lemma appendUnique_again: "appendUnique (appendUnique dst src) src = appendUnique dst src"
proof -
  have "set src \<subseteq> appendUnique_seen (appendUnique dst src) {}"
    by (simp add: appendUnique_seen_eq appendUnique_set)
  then show ?thesis
    by (subst appendUnique_def) (simp add: appendUnique_loop_known)
qed

lemma set_discovery_order [simp]: "set (discovery_order xs) = set xs"
  by (induction xs) auto

lemma distinct_discovery_order [simp]: "distinct (discovery_order xs)"
  by (induction xs) (auto simp: distinct_removeAll)

lemma discovery_order_snoc:
  "discovery_order (xs @ [x]) = (if x \<in> set xs then discovery_order xs else discovery_order xs @ [x])"
  by (induction xs) (auto simp: removeAll_append)

lemma filter_removeAll_seen:
  "filter (\<lambda>x. x \<notin> seen) (removeAll v xs) = filter (\<lambda>x. x \<notin> insert v seen) xs"
  by (induction xs) auto

lemma appendUnique_loop_eq:
  "appendUnique_loop src seen dst = dst @ filter (\<lambda>v. v \<notin> seen) (discovery_order src)"
proof (induction src arbitrary: seen dst)
  case Nil
  then show ?case by simp
next
  case (Cons v vs)
  show ?case
  proof (cases "v \<in> seen")
    case True
    then have "insert v seen = seen" by auto
    with True Cons show ?thesis by (simp add: filter_removeAll_seen)
  next
    case False
    with Cons show ?thesis by (simp add: filter_removeAll_seen)
  qed
qed

lemma appendUnique_eq:
  "appendUnique dst src = dst @ filter (\<lambda>v. v \<notin> set dst) (discovery_order src)"
  by (simp add: appendUnique_def appendUnique_loop_eq appendUnique_seen_eq)

lemma merge_entry_again: "merge_entry keys (merge_entry keys e) = merge_entry keys e"
  by (cases e) (simp_all add: appendUnique_again)

text \<open>
  C6.  The template merge is idempotent: appending a key list with \<^verbatim>\<open>appendUnique\<close>
  to a member list that already is the result of appending it changes nothing, and so
  does merging the same key list a second time into the entries of a template.
\<close>

theorem appendUnique_idempotent:
  "appendUnique (appendUnique dst src) src = appendUnique dst src \<and>
   map (merge_entry src) (map (merge_entry src) entries) = map (merge_entry src) entries"
  by (simp add: appendUnique_again merge_entry_again)

subsection \<open>Decimal numerals and the registry key\<close>

lemma byte_digit: "d < 10 \<Longrightarrow> byte (digit d) = 0x30 + int d"
proof -
  assume "d < 10"
  then have "d \<in> {0, 1, 2, 3, 4, 5, 6, 7, 8, 9}" by auto
  then show ?thesis by (auto simp: byte_def digit_def)
qed

lemma digits_value:
  "foldl (\<lambda>n c. n * 10 + (byte c - 0x30)) 0 (digits n) = int n"
proof (induction n rule: digits.induct)
  case (1 n)
  show ?case
  proof (cases "n < 10")
    case True
    then show ?thesis by (subst digits.simps) (simp add: byte_digit)
  next
    case False
    with 1 have "foldl (\<lambda>n c. n * 10 + (byte c - 0x30)) 0 (digits (n div 10)) = int (n div 10)"
      by simp
    with False show ?thesis
      by (subst digits.simps) (simp add: byte_digit zdiv_int zmod_int)
  qed
qed

lemma digits_inj: "digits n = digits m \<Longrightarrow> n = m"
  by (metis digits_value of_nat_eq_iff)

lemma digit_in: "d < 10 \<Longrightarrow> digit d \<in> set ''0123456789''"
  unfolding digit_def by (rule nth_mem) simp

lemma set_digits: "set (digits n) \<subseteq> set ''0123456789''"
proof (induction n rule: digits.induct)
  case (1 n)
  show ?case
  proof (cases "n < 10")
    case True
    then show ?thesis using digit_in [of n] by (subst digits.simps) simp
  next
    case False
    with 1 have "set (digits (n div 10)) \<subseteq> set ''0123456789''" by simp
    with False show ?thesis using digit_in [of "n mod 10"] by (subst digits.simps) simp
  qed
qed

lemma digits_nonempty: "digits n \<noteq> []"
  by (subst digits.simps) simp

lemma Itoa_inj: "Itoa i = Itoa j \<Longrightarrow> i = j"
proof -
  assume eq: "Itoa i = Itoa j"
  have nd: "\<And>n m. CHR ''-'' # digits n \<noteq> digits m"
  proof
    fix n m assume "CHR ''-'' # digits n = digits m"
    then have "CHR ''-'' \<in> set (digits m)" by (metis list.set_intros(1))
    with set_digits [of m] show False by auto
  qed
  show ?thesis
  proof (cases "i < 0"; cases "j < 0")
    assume "i < 0" "j < 0"
    with eq have "digits (nat (- i)) = digits (nat (- j))" by (simp add: Itoa_def)
    then have "nat (- i) = nat (- j)" by (rule digits_inj)
    with \<open>i < 0\<close> \<open>j < 0\<close> show ?thesis by simp
  next
    assume "i < 0" "\<not> j < 0"
    with eq nd show ?thesis by (simp add: Itoa_def)
  next
    assume "\<not> i < 0" "j < 0"
    with eq nd [of "nat (- j)" "nat i"] show ?thesis by (simp add: Itoa_def)
  next
    assume "\<not> i < 0" "\<not> j < 0"
    with eq have "digits (nat i) = digits (nat j)" by (simp add: Itoa_def)
    then have "nat i = nat j" by (rule digits_inj)
    with \<open>\<not> i < 0\<close> \<open>\<not> j < 0\<close> show ?thesis by simp
  qed
qed

lemma colon_notin_Itoa: "CHR '':'' \<notin> set (Itoa i)"
  using set_digits [of "nat i"] set_digits [of "nat (- i)"] by (auto simp: Itoa_def)

lemma split_at_last:
  "c \<notin> set t \<Longrightarrow> c \<notin> set t' \<Longrightarrow> s @ c # t = s' @ c # t' \<Longrightarrow> s = s' \<and> t = t'"
proof (induction s arbitrary: s')
  case Nil
  then show ?case by (cases s') auto
next
  case (Cons a s)
  then show ?case by (cases s') auto
qed

lemma outboundKey_inj:
  "outboundKey s p = outboundKey s' p' \<longleftrightarrow> s = s' \<and> p = p'"
  using split_at_last [OF colon_notin_Itoa colon_notin_Itoa, of s p s' p'] Itoa_inj
  by (auto simp: outboundKey_def)

subsection \<open>The endpoint registry\<close>

lemma key_of_eq_iff: "key_of a = key_of b \<longleftrightarrow> ident a = ident b"
  by (simp add: key_of_def ident_def outboundKey_inj)

lemma registry_inv_init: "registry_inv registry_init"
  by (simp add: registry_inv_def registry_init_def)

lemma registry_inv_lookup:
  "registry_inv st \<Longrightarrow> i < length (outbounds st) \<Longrightarrow>
   indexMap st (key_of (outbounds st ! i)) = Some i"
  by (simp add: registry_inv_def)

lemma registry_put_hit:
  assumes inv: "registry_inv st" and hit: "indexMap st (key_of ob) = Some idx"
  shows "registry_inv (st\<lparr>outbounds := (outbounds st)[idx := ob]\<rparr>)"
    and "(outbounds st)[idx := ob] = replace_or_append ob (outbounds st)"
    and "idx < length (outbounds st)"
proof -
  from inv hit have idx: "idx < length (outbounds st)"
    and kidx: "key_of (outbounds st ! idx) = key_of ob"
    by (auto simp: registry_inv_def)
  show "idx < length (outbounds st)" by (rule idx)
  have uniq: "i = idx"
    if "i < length (outbounds st)" "key_of (outbounds st ! i) = key_of ob" for i
    using registry_inv_lookup [OF inv that(1)] hit that(2) by simp
  show "registry_inv (st\<lparr>outbounds := (outbounds st)[idx := ob]\<rparr>)"
    unfolding registry_inv_def
  proof (intro allI)
    fix k i
    have "key_of ((outbounds st)[idx := ob] ! i) = key_of (outbounds st ! i)"
      if "i < length (outbounds st)"
      using that kidx by (cases "i = idx") auto
    with inv show "indexMap (st\<lparr>outbounds := (outbounds st)[idx := ob]\<rparr>) k = Some i \<longleftrightarrow>
        (i < length (outbounds (st\<lparr>outbounds := (outbounds st)[idx := ob]\<rparr>)) \<and>
         key_of (outbounds (st\<lparr>outbounds := (outbounds st)[idx := ob]\<rparr>) ! i) = k)"
      by (auto simp: registry_inv_def)
  qed
  have mem: "ident ob \<in> ident ` set (outbounds st)"
    using idx kidx by (metis image_eqI key_of_eq_iff nth_mem)
  have "(outbounds st)[idx := ob] =
        map (\<lambda>x. if ident x = ident ob then ob else x) (outbounds st)"
  proof (rule nth_equalityI)
    show "length ((outbounds st)[idx := ob]) =
          length (map (\<lambda>x. if ident x = ident ob then ob else x) (outbounds st))"
      by simp
  next
    fix i assume "i < length ((outbounds st)[idx := ob])"
    then have i: "i < length (outbounds st)" by simp
    show "(outbounds st)[idx := ob] ! i =
          map (\<lambda>x. if ident x = ident ob then ob else x) (outbounds st) ! i"
    proof (cases "i = idx")
      case True
      with i kidx show ?thesis by (simp add: key_of_eq_iff)
    next
      case False
      with uniq [OF i] have "ident (outbounds st ! i) \<noteq> ident ob"
        by (auto simp: key_of_eq_iff)
      with False i show ?thesis by simp
    qed
  qed
  with mem show "(outbounds st)[idx := ob] = replace_or_append ob (outbounds st)"
    by (simp add: replace_or_append_def)
qed

lemma registry_put_miss:
  assumes inv: "registry_inv st" and miss: "indexMap st (key_of ob) = None"
  shows "registry_inv \<lparr>outbounds = outbounds st @ [ob],
            indexMap = (indexMap st)(key_of ob \<mapsto> length (outbounds st))\<rparr>"
    and "outbounds st @ [ob] = replace_or_append ob (outbounds st)"
proof -
  have fresh: "key_of (outbounds st ! i) \<noteq> key_of ob" if "i < length (outbounds st)" for i
    using registry_inv_lookup [OF inv that] miss by auto
  have "ident ob \<notin> ident ` set (outbounds st)"
  proof
    assume "ident ob \<in> ident ` set (outbounds st)"
    then obtain i where "i < length (outbounds st)" "ident (outbounds st ! i) = ident ob"
      by (auto simp: in_set_conv_nth)
    with fresh show False by (simp add: key_of_eq_iff)
  qed
  then show "outbounds st @ [ob] = replace_or_append ob (outbounds st)"
    by (simp add: replace_or_append_def)
  show "registry_inv \<lparr>outbounds = outbounds st @ [ob],
            indexMap = (indexMap st)(key_of ob \<mapsto> length (outbounds st))\<rparr>"
    unfolding registry_inv_def
  proof (intro allI)
    fix k i
    show "indexMap \<lparr>outbounds = outbounds st @ [ob],
            indexMap = (indexMap st)(key_of ob \<mapsto> length (outbounds st))\<rparr> k = Some i \<longleftrightarrow>
        (i < length (outbounds \<lparr>outbounds = outbounds st @ [ob],
            indexMap = (indexMap st)(key_of ob \<mapsto> length (outbounds st))\<rparr>) \<and>
         key_of (outbounds \<lparr>outbounds = outbounds st @ [ob],
            indexMap = (indexMap st)(key_of ob \<mapsto> length (outbounds st))\<rparr> ! i) = k)"
      using inv fresh by (auto simp: registry_inv_def nth_append less_Suc_eq)
  qed
qed

lemma registry_put_contract:
  assumes "registry_inv st"
  shows "registry_inv (registry_put ob st) \<and>
         outbounds (registry_put ob st) = replace_or_append ob (outbounds st)"
proof (cases "indexMap st (key_of ob)")
  case None
  with registry_put_miss [OF assms None] show ?thesis
    by (simp add: registry_put_def key_of_def)
next
  case (Some idx)
  with registry_put_hit [OF assms Some] show ?thesis
    by (simp add: registry_put_def key_of_def)
qed

lemma main_line_eq:
  "main_line So url_Parse line st =
     (case parsed_line So url_Parse line of None \<Rightarrow> st | Some ob \<Rightarrow> registry_put ob st)"
  by (simp add: main_line_def parsed_line_def Let_def split: prod.splits option.splits)

lemma fold_main_line:
  "registry_inv st \<Longrightarrow>
   registry_inv (fold (main_line So url_Parse) lines st) \<and>
   outbounds (fold (main_line So url_Parse) lines st) =
     fold replace_or_append (parsed_records So url_Parse lines) (outbounds st)"
proof (induction lines arbitrary: st)
  case Nil
  then show ?case by (simp add: parsed_records_def map_filter_simps)
next
  case (Cons line lines)
  show ?case
  proof (cases "parsed_line So url_Parse line")
    case None
    with Cons show ?thesis
      by (simp add: main_line_eq parsed_records_def map_filter_simps)
  next
    case (Some ob)
    with Cons.prems registry_put_contract [of st ob] Cons.IH [of "registry_put ob st"]
    show ?thesis
      by (simp add: main_line_eq parsed_records_def map_filter_simps)
  qed
qed

lemma main_registry_contract:
  "outbounds (main_registry So url_Parse lines) =
     fold replace_or_append (parsed_records So url_Parse lines) []"
  using fold_main_line [OF registry_inv_init, of So url_Parse lines]
  by (simp add: main_registry_def registry_init_def)

lemma ident_replace_or_append:
  "map ident (replace_or_append ob obs) =
     (if ident ob \<in> set (map ident obs) then map ident obs else map ident obs @ [ident ob])"
  by (auto simp: replace_or_append_def)

lemma contract_idents:
  "map ident (fold replace_or_append rs []) = discovery_order (map ident rs)"
  by (induction rs rule: rev_induct) (simp_all add: ident_replace_or_append discovery_order_snoc)

lemma contract_values:
  "x \<in> set (fold replace_or_append rs []) \<Longrightarrow> x = last (filter (\<lambda>r. ident r = ident x) rs)"
proof (induction rs arbitrary: x rule: rev_induct)
  case Nil
  then show ?case by simp
next
  case (snoc r rs)
  let ?obs = "fold replace_or_append rs []"
  from snoc.prems have mem: "x \<in> set (replace_or_append r ?obs)" by simp
  show ?case
  proof (cases "ident x = ident r")
    case True
    have "x = r"
    proof (cases "ident r \<in> ident ` set ?obs")
      case True
      with mem \<open>ident x = ident r\<close> show ?thesis
        by (auto simp: replace_or_append_def split: if_splits)
    next
      case False
      with mem \<open>ident x = ident r\<close> show ?thesis
        by (auto simp: replace_or_append_def image_iff)
    qed
    then show ?thesis by simp
  next
    case False
    with mem have "x \<in> set ?obs"
      by (auto simp: replace_or_append_def split: if_splits)
    with snoc.IH have "x = last (filter (\<lambda>r. ident r = ident x) rs)" .
    with False show ?thesis by auto
  qed
qed

lemma contract_prefix:
  "prefix (map ident obs) (map ident (fold replace_or_append rs obs))"
proof (induction rs arbitrary: obs)
  case Nil
  then show ?case by simp
next
  case (Cons r rs)
  have "prefix (map ident obs) (map ident (replace_or_append r obs))"
    by (simp add: ident_replace_or_append)
  also have "prefix \<dots> (map ident (fold replace_or_append rs (replace_or_append r obs)))"
    by (rule Cons.IH)
  finally show ?case by simp
qed

lemma parsed_records_append:
  "parsed_records So url_Parse (xs @ ys) =
   parsed_records So url_Parse xs @ parsed_records So url_Parse ys"
  by (simp add: parsed_records_def map_filter_def)

text \<open>
  C1.  The records of the registry, read by identity (host and port), are the identities
  of the parsed records of the input, each once, in the order of their first
  occurrence; the record stored for an identity is the last parsed record with that
  identity; and reading more lines never removes or moves an identity that is stored.
\<close>

theorem registry_last_write_first_position:
  "map ident (outbounds (main_registry So url_Parse lines)) =
     discovery_order (map ident (parsed_records So url_Parse lines)) \<and>
   (\<forall>x \<in> set (outbounds (main_registry So url_Parse lines)).
      x = last (filter (\<lambda>r. ident r = ident x) (parsed_records So url_Parse lines))) \<and>
   prefix (map ident (outbounds (main_registry So url_Parse lines)))
          (map ident (outbounds (main_registry So url_Parse (lines @ later))))"
proof -
  have "prefix (map ident (outbounds (main_registry So url_Parse lines)))
          (map ident (outbounds (main_registry So url_Parse (lines @ later))))"
    using contract_prefix [of "fold replace_or_append (parsed_records So url_Parse lines) []"
        "parsed_records So url_Parse later"]
    by (simp add: main_registry_contract parsed_records_append)
  then show ?thesis
    by (simp add: main_registry_contract contract_idents contract_values)
qed

theorem registry_last_write_first_position_witness:
  "sample_record ''1.2.3.4'' 443 ''SG 02''
     \<in> set (outbounds (main_registry sample_So sample_Parse
          [''trojan://p@1.2.3.4:443?sni=a#SG%2001'', ''trojan://p@10.0.0.1:443?sni=a#JP%2001'',
           ''trojan://p@1.2.3.4:443?sni=a#SG%2002''])) \<and>
   sample_record ''1.2.3.4'' 443 ''SG 02'' =
     last (filter (\<lambda>r. ident r = ident (sample_record ''1.2.3.4'' 443 ''SG 02''))
       (parsed_records sample_So sample_Parse
          [''trojan://p@1.2.3.4:443?sni=a#SG%2001'', ''trojan://p@10.0.0.1:443?sni=a#JP%2001'',
           ''trojan://p@1.2.3.4:443?sni=a#SG%2002'']))"
proof -
  let ?lines = "[''trojan://p@1.2.3.4:443?sni=a#SG%2001'', ''trojan://p@10.0.0.1:443?sni=a#JP%2001'',
           ''trojan://p@1.2.3.4:443?sni=a#SG%2002'']"
  have out: "outbounds (main_registry sample_So sample_Parse ?lines) =
      [sample_record ''1.2.3.4'' 443 ''SG 02'', sample_record ''10.0.0.1'' 443 ''JP 01'']"
    by code_simp
  then have mem: "sample_record ''1.2.3.4'' 443 ''SG 02''
      \<in> set (outbounds (main_registry sample_So sample_Parse ?lines))"
    by simp
  from registry_last_write_first_position [of sample_So sample_Parse ?lines "[]"]
  have "\<forall>x \<in> set (outbounds (main_registry sample_So sample_Parse ?lines)).
      x = last (filter (\<lambda>r. ident r = ident x) (parsed_records sample_So sample_Parse ?lines))"
    by blast
  with mem show ?thesis by blast
qed

text \<open>
  C7, as it stands, fails: two lines of different endpoints with the same label both
  stay in the registry, with the same label.
\<close>

theorem registry_labels_distinct_counterexample:
  "\<not> distinct (map Tag (outbounds (main_registry sample_So sample_Parse
       [''trojan://p@10.0.0.1:443?sni=a#JP%2001'', ''trojan://p@10.0.0.4:443?sni=a#JP%2001''])))"
proof -
  have "map Tag (outbounds (main_registry sample_So sample_Parse
       [''trojan://p@10.0.0.1:443?sni=a#JP%2001'', ''trojan://p@10.0.0.4:443?sni=a#JP%2001''])) =
     [''JP 01'', ''JP 01'']"
    by code_simp
  then show ?thesis by simp
qed

text \<open>
  C7, amended.  After deduplication the identities (host and port) of the records of
  the registry are pairwise distinct.
\<close>

theorem registry_identities_distinct:
  "distinct (map ident (outbounds (main_registry So url_Parse lines)))"
  by (simp add: main_registry_contract contract_idents)

subsection \<open>Runes and fields\<close>

lemma DecodeRune_width:
  "DecodeRune (c # cs) = (r, w) \<Longrightarrow> 1 \<le> w \<and> w \<le> length (c # cs)"
  by (auto simp: Let_def split: if_splits list.splits)

lemma runes_bytes: "concat (map snd (runes s)) = s"
proof (induction s rule: runes.induct)
  case 1
  then show ?case by simp
next
  case (2 c cs)
  obtain r w where d: "DecodeRune (c # cs) = (r, w)"
    by (cases "DecodeRune (c # cs)")
  from DecodeRune_width [OF d] obtain k where w: "w = Suc k" and k: "k \<le> length cs"
    by (cases w) auto
  from 2 [OF d [symmetric] refl] have "concat (map snd (runes (drop k cs))) = drop k cs"
    by (simp add: w)
  with d show ?case
    by (simp add: w del: DecodeRune.simps)
qed

lemma runes_nonempty: "rb \<in> set (runes s) \<Longrightarrow> snd rb \<noteq> []"
proof (induction s arbitrary: rb rule: runes.induct)
  case 1
  then show ?case by simp
next
  case (2 c cs)
  obtain r w where d: "DecodeRune (c # cs) = (r, w)"
    by (cases "DecodeRune (c # cs)")
  from DecodeRune_width [OF d] obtain k where w: "w = Suc k"
    by (cases w) auto
  from 2(1) [OF d [symmetric] refl] have "rb \<in> set (runes (drop k cs)) \<Longrightarrow> snd rb \<noteq> []"
    by (simp add: w)
  with 2(2) d show ?case
    by (auto simp: w simp del: DecodeRune.simps)
qed

lemma FieldsFunc_loop_nonempty:
  "t \<in> set (FieldsFunc_loop f rs cur) \<Longrightarrow> t \<noteq> []"
  by (induction f rs cur rule: FieldsFunc_loop.induct) (auto split: if_splits)

lemma Fields_nonempty: "t \<in> set (Fields s) \<Longrightarrow> t \<noteq> []"
  by (auto simp: Fields_def dest: FieldsFunc_loop_nonempty)

subsection \<open>The region classifier\<close>

text \<open>
  C2.  When splitting the label on white space gives no token or one token, the region
  key is the label itself; otherwise it is the tokens without the last one, joined with
  single spaces.
\<close>

theorem extractRegion_tokens:
  "(length (Fields label) \<le> 1 \<longrightarrow> extractRegion label = label) \<and>
   (2 \<le> length (Fields label) \<longrightarrow>
      extractRegion label = Join (butlast (Fields label)) '' '')"
  by (simp add: extractRegion_def Let_def butlast_conv_take)

theorem extractRegion_tokens_witness:
  "length (Fields ''SG'') \<le> 1 \<and> extractRegion ''SG'' = ''SG'' \<and>
   2 \<le> length (Fields ''Hong  Kong 01'') \<and> extractRegion ''Hong  Kong 01'' = ''Hong Kong''"
proof -
  have one: "Fields ''SG'' = [''SG'']"
    by code_simp
  have three: "Fields ''Hong  Kong 01'' = [''Hong'', ''Kong'', ''01'']"
    by code_simp
  from extractRegion_tokens [of "''SG''"] extractRegion_tokens [of "''Hong  Kong 01''"]
  show ?thesis
    by (simp add: one three)
qed

subsection \<open>The port of a URI\<close>

text \<open>
  C5, as it stands, fails: for a line whose port is \<open>0\<close> the parser returns a record,
  with port zero, and no error.
\<close>

theorem parseTrojanURL_port_zero_counterexample:
  "parseTrojanURL sample_So sample_Parse ''trojan://p@1.2.3.4:0?sni=a#SG%2001'' =
     (Some (sample_record ''1.2.3.4'' 0 ''SG 01''), None)"
  by code_simp

text \<open>
  The other case the claim names: for a line without a port the parser returns neither
  a record nor an error (line 72 returns the \<^verbatim>\<open>err\<close> of \<^verbatim>\<open>url.Parse\<close>, which is
  \<^verbatim>\<open>nil\<close> there), so the caller drops the line as it drops a line of another scheme.
\<close>

lemma parseTrojanURL_no_port:
  "parseTrojanURL sample_So sample_Parse ''trojan://p@1.2.3.4?sni=a#SG%2001'' = (None, None)"
  by code_simp

lemma parseTrojanURL_absent_port:
  "url_Parse (TrimSpace raw) = Inr u \<Longrightarrow> Scheme u = ''trojan'' \<Longrightarrow> Port u = [] \<Longrightarrow>
   parseTrojanURL So url_Parse raw = (None, None)"
  by (simp add: parseTrojanURL_def)

text \<open>
  C5, amended.  For a line of the scheme \<^verbatim>\<open>trojan\<close> whose port is present, the parser
  returns the error of \<^verbatim>\<open>strconv.Atoi\<close> when the port is not the numeral of an
  \<^verbatim>\<open>int\<close>, and otherwise a record with the port \<^verbatim>\<open>Atoi\<close> returns, zero included; and
  the caller skips every line for which the parser returns an error.
\<close>

theorem parseTrojanURL_port:
  "(url_Parse (TrimSpace raw) = Inr u \<and> Scheme u = ''trojan'' \<and> Port u \<noteq> [] \<longrightarrow>
      (\<forall>e. Atoi (Port u) = Inl e \<longrightarrow> parseTrojanURL So url_Parse raw = (None, Some e)) \<and>
      (\<forall>p. Atoi (Port u) = Inr p \<longrightarrow>
         (\<exists>ob. parseTrojanURL So url_Parse raw = (Some ob, None) \<and> ServerPort ob = p))) \<and>
   (snd (parseTrojanURL So url_Parse (TrimSpace line)) \<noteq> None \<longrightarrow>
      main_line So url_Parse line st = st)"
  by (auto simp: parseTrojanURL_def main_line_def Let_def split: sum.splits prod.splits option.splits)

theorem parseTrojanURL_port_witness:
  "parseTrojanURL sample_So sample_Parse
      ''trojan://p@1.2.3.4:99999999999999999999?sni=a#SG%2001'' = (None, Some ErrRange) \<and>
   main_line sample_So sample_Parse
      ''trojan://p@1.2.3.4:99999999999999999999?sni=a#SG%2001'' registry_init = registry_init \<and>
   (\<exists>ob. parseTrojanURL sample_So sample_Parse ''trojan://p@1.2.3.4:0?sni=a#SG%2001'' =
      (Some ob, None) \<and> ServerPort ob = 0)"
proof -
  let ?big = "''trojan://p@1.2.3.4:99999999999999999999?sni=a#SG%2001''"
  let ?zero = "''trojan://p@1.2.3.4:0?sni=a#SG%2001''"
  let ?ubig = "sample_URL (''1.2.3.4'', ''99999999999999999999'', ''SG 01'')"
  let ?uzero = "sample_URL (''1.2.3.4'', ''0'', ''SG 01'')"
  have trim: "TrimSpace ?big = ?big" "TrimSpace ?zero = ?zero"
    by code_simp+
  have parse: "sample_Parse ?big = Inr ?ubig" "sample_Parse ?zero = Inr ?uzero"
    by (simp_all add: sample_Parse_def sample_table_def)
  have fields: "Scheme ?ubig = ''trojan''" "Port ?ubig = ''99999999999999999999''"
    "Scheme ?uzero = ''trojan''" "Port ?uzero = ''0''"
    by (simp_all add: sample_URL_def)
  have atoi: "Atoi ''99999999999999999999'' = Inl ErrRange" "Atoi ''0'' = Inr 0"
    by code_simp+
  from parseTrojanURL_port [of sample_Parse ?big ?ubig sample_So ?big registry_init]
    parseTrojanURL_port [of sample_Parse ?zero ?uzero sample_So ?zero registry_init]
  show ?thesis
    by (simp add: trim parse fields atoi)
qed

subsection \<open>Regions and groups\<close>

lemma member_labels_snoc:
  "member_labels (obs @ [ob]) region =
     member_labels obs region @ (if extractRegion (Tag ob) = region then [Tag ob] else [])"
  by (simp add: member_labels_def)

lemma main_regions_snoc: "main_regions (obs @ [ob]) = main_region ob (main_regions obs)"
  by (simp add: main_regions_def)

lemma main_regions_eq:
  "regionOrder (main_regions obs) = discovery_order (map (\<lambda>ob. extractRegion (Tag ob)) obs) \<and>
   (\<forall>region. regionIndex (main_regions obs) region = None \<longleftrightarrow>
       region \<notin> set (regionOrder (main_regions obs))) \<and>
   (\<forall>region. regionTags (main_regions obs) region =
       (if member_labels obs region = [] then None else Some (member_labels obs region)))"
proof (induction obs rule: rev_induct)
  case Nil
  then show ?case
    by (simp add: main_regions_def regions_init_def member_labels_def)
next
  case (snoc ob obs)
  let ?st = "main_regions obs"
  let ?r = "extractRegion (Tag ob)"
  from snoc have order: "regionOrder ?st = discovery_order (map (\<lambda>ob. extractRegion (Tag ob)) obs)"
    and index: "\<And>region. regionIndex ?st region = None \<longleftrightarrow> region \<notin> set (regionOrder ?st)"
    and tags: "\<And>region. regionTags ?st region =
       (if member_labels obs region = [] then None else Some (member_labels obs region))"
    by blast+
  have known: "regionIndex ?st ?r = None \<longleftrightarrow> ?r \<notin> (\<lambda>ob. extractRegion (Tag ob)) ` set obs"
    using index [of ?r] order by simp
  have 1: "regionOrder (main_region ob ?st) =
      discovery_order (map (\<lambda>ob. extractRegion (Tag ob)) (obs @ [ob]))"
    using known order by (simp add: main_region_def Let_def discovery_order_snoc)
  have 2: "regionIndex (main_region ob ?st) region = None \<longleftrightarrow>
      region \<notin> set (regionOrder (main_region ob ?st))" for region
    using index [of region] index [of ?r] by (auto simp: main_region_def Let_def)
  have 3: "regionTags (main_region ob ?st) region =
      (if member_labels (obs @ [ob]) region = [] then None
       else Some (member_labels (obs @ [ob]) region))" for region
    by (simp add: main_region_def Let_def tags_at_def member_labels_snoc tags)
  from 1 2 3 show ?case
    by (simp only: main_regions_snoc) blast
qed

lemma tags_at_main_regions:
  "tags_at (regionTags (main_regions obs)) region = member_labels obs region"
  using main_regions_eq [of obs] by (simp add: tags_at_def)

lemma dom_main_regions:
  "dom (regionTags (main_regions obs)) = set (regionOrder (main_regions obs))"
proof -
  have "member_labels obs region \<noteq> [] \<longleftrightarrow> region \<in> (\<lambda>ob. extractRegion (Tag ob)) ` set obs"
    for region
    by (auto simp: member_labels_def filter_empty_conv)
  then show ?thesis
    using main_regions_eq [of obs] by (auto simp: dom_def)
qed

lemma collapse_region_tags:
  "tags_at (snd (collapse_region x s)) region =
     (if region = x \<and> length (tags_at (snd s) x) = 1 then [x] else tags_at (snd s) region)"
proof (cases "snd s x")
  case None
  then show ?thesis by (simp add: collapse_region_def tags_at_def)
next
  case (Some tags)
  show ?thesis
  proof (cases "length tags = 1")
    case True
    then obtain t where "tags = [t]" by (cases tags) auto
    with Some show ?thesis by (simp add: collapse_region_def tags_at_def)
  next
    case False
    with Some show ?thesis by (simp add: collapse_region_def tags_at_def)
  qed
qed

lemma main_collapse_tags:
  "length (tags_at (snd (main_collapse order s)) region) = length (tags_at (snd s) region) \<and>
   (length (tags_at (snd s) region) \<noteq> 1 \<longrightarrow>
      tags_at (snd (main_collapse order s)) region = tags_at (snd s) region)"
  unfolding main_collapse_def
proof (induction order arbitrary: s)
  case Nil
  then show ?case by simp
next
  case (Cons x order)
  from Cons [of "collapse_region x s"] show ?case
    by (simp add: collapse_region_tags split: if_splits)
qed

lemma main_groups_eq: "main_groups order m = concat (map (main_group m) order)"
proof -
  have "fold (\<lambda>region groupOutbounds. groupOutbounds @ main_group m region) order acc =
        acc @ concat (map (main_group m) order)" for acc
    by (induction order arbitrary: acc) simp_all
  then show ?thesis by (simp add: main_groups_def)
qed

lemma concat_map_if:
  "concat (map (\<lambda>x. if P x then f x else []) xs) = concat (map f (filter P xs))"
  by (induction xs) simp_all

text \<open>
  C4.  The groups are, for the regions with two or more member labels in the order of
  discovery, the health-check aggregator of the region followed by its selector: the
  aggregator has the region key with \<open>-auto\<close> as its identity, the member labels as its
  members, and does not interrupt; the selector has the region key as its identity, the
  identity of the aggregator followed by the member labels as its members, and
  interrupts.  No region is listed twice.  This holds for every order in which the loop
  of lines 209-222 visits the map.
\<close>

theorem groups_of_regions:
  "groups (main_generate order obs) =
     concat (map (\<lambda>region.
         [\<lparr>Type = ''urltest'', Tag = region @ ''-auto'',
           Outbounds = member_labels obs region, InterruptExistConnections = False\<rparr>,
          \<lparr>Type = ''selector'', Tag = region,
           Outbounds = (region @ ''-auto'') # member_labels obs region,
           InterruptExistConnections = True\<rparr>])
       (filter (\<lambda>region. 2 \<le> length (member_labels obs region))
          (discovery_order (map (\<lambda>ob. extractRegion (Tag ob)) obs)))) \<and>
   distinct (discovery_order (map (\<lambda>ob. extractRegion (Tag ob)) obs))"
proof -
  let ?m = "regionTags (main_regions obs)"
  let ?m' = "snd (main_collapse order (obs, ?m))"
  have len: "length (tags_at ?m' region) = length (member_labels obs region)" for region
    using main_collapse_tags [of order "(obs, ?m)" region] by (simp add: tags_at_main_regions)
  have same: "tags_at ?m' region = member_labels obs region"
    if "2 \<le> length (member_labels obs region)" for region
    using main_collapse_tags [of order "(obs, ?m)" region] that
    by (simp add: tags_at_main_regions)
  have group: "main_group ?m' region =
      (if 2 \<le> length (member_labels obs region)
       then [\<lparr>Type = ''urltest'', Tag = region @ ''-auto'',
               Outbounds = member_labels obs region, InterruptExistConnections = False\<rparr>,
             \<lparr>Type = ''selector'', Tag = region,
               Outbounds = (region @ ''-auto'') # member_labels obs region,
               InterruptExistConnections = True\<rparr>]
       else [])" for region
  proof (cases "2 \<le> length (member_labels obs region)")
    case True
    with same [OF True] show ?thesis by (simp add: main_group_def Let_def)
  next
    case False
    with len [of region] show ?thesis by (simp add: main_group_def Let_def)
  qed
  have "groups (main_generate order obs) =
      concat (map (main_group ?m') (regionOrder (main_regions obs)))"
    by (simp add: main_generate_def Let_def main_groups_eq)
  also have "\<dots> = concat (map (main_group ?m')
      (discovery_order (map (\<lambda>ob. extractRegion (Tag ob)) obs)))"
    using main_regions_eq [of obs] by simp
  also have "main_group ?m' =
      (\<lambda>region. if 2 \<le> length (member_labels obs region)
         then [\<lparr>Type = ''urltest'', Tag = region @ ''-auto'',
                 Outbounds = member_labels obs region, InterruptExistConnections = False\<rparr>,
               \<lparr>Type = ''selector'', Tag = region,
                 Outbounds = (region @ ''-auto'') # member_labels obs region,
                 InterruptExistConnections = True\<rparr>]
         else [])"
    by (rule ext) (rule group)
  finally show ?thesis
    by (simp add: concat_map_if)
qed

lemma groups_example:
  "groups (main_generate [''US'', ''JP'']
      [sample_record ''10.0.0.1'' 443 ''JP 01'', sample_record ''10.0.0.2'' 443 ''JP 02'',
       sample_record ''10.0.0.3'' 443 ''US 01'']) =
     [\<lparr>Type = ''urltest'', Tag = ''JP-auto'', Outbounds = [''JP 01'', ''JP 02''],
       InterruptExistConnections = False\<rparr>,
      \<lparr>Type = ''selector'', Tag = ''JP'', Outbounds = [''JP-auto'', ''JP 01'', ''JP 02''],
       InterruptExistConnections = True\<rparr>]"
  by code_simp

subsection \<open>The collapse of singleton regions\<close>

text \<open>
  C3 at the sample of nested labels.  Both regions have exactly one member, and the
  loop of lines 209-222 may visit \<open>A B\<close> before \<open>A\<close>.  It then renames the first record
  to \<open>A B\<close>, and on the visit of \<open>A\<close> finds that record again under the tag \<open>A B\<close> and
  renames it to \<open>A\<close>; the second record keeps \<open>A B\<close>.  So the member of the region
  \<open>A B\<close> ends with the label \<open>A\<close>, and the member of the region \<open>A\<close> with the label
  \<open>A B\<close>.  In the other order each member gets the key of its own region.  No group is
  emitted in either order.
\<close>

theorem collapse_renames_other_record:
  "map (\<lambda>ob. (Server ob, Tag ob)) sample_nested =
     [(''10.0.0.5'', ''A B C''), (''10.0.0.6'', ''A B'')] \<and>
   member_labels sample_nested ''A B'' = [''A B C''] \<and>
   member_labels sample_nested ''A'' = [''A B''] \<and>
   range_order (regionTags (main_regions sample_nested)) [''A B'', ''A''] \<and>
   map (\<lambda>ob. (Server ob, Tag ob)) (servers (main_generate [''A B'', ''A''] sample_nested)) =
     [(''10.0.0.5'', ''A''), (''10.0.0.6'', ''A B'')] \<and>
   range_order (regionTags (main_regions sample_nested)) [''A'', ''A B''] \<and>
   map (\<lambda>ob. (Server ob, Tag ob)) (servers (main_generate [''A'', ''A B''] sample_nested)) =
     [(''10.0.0.5'', ''A B''), (''10.0.0.6'', ''A'')] \<and>
   groups (main_generate [''A B'', ''A''] sample_nested) = [] \<and>
   groups (main_generate [''A'', ''A B''] sample_nested) = []"
proof -
  have 1: "map (\<lambda>ob. (Server ob, Tag ob)) sample_nested =
     [(''10.0.0.5'', ''A B C''), (''10.0.0.6'', ''A B'')]"
    by code_simp
  have 2: "member_labels sample_nested ''A B'' = [''A B C'']"
    by code_simp
  have 3: "member_labels sample_nested ''A'' = [''A B'']"
    by code_simp
  have "regionOrder (main_regions sample_nested) = [''A B'', ''A'']"
    by code_simp
  then have 4: "range_order (regionTags (main_regions sample_nested)) [''A B'', ''A'']"
    and 6: "range_order (regionTags (main_regions sample_nested)) [''A'', ''A B'']"
    by (auto simp: range_order_def dom_main_regions)
  have 5: "map (\<lambda>ob. (Server ob, Tag ob)) (servers (main_generate [''A B'', ''A''] sample_nested)) =
     [(''10.0.0.5'', ''A''), (''10.0.0.6'', ''A B'')]"
    by code_simp
  have 7: "map (\<lambda>ob. (Server ob, Tag ob)) (servers (main_generate [''A'', ''A B''] sample_nested)) =
     [(''10.0.0.5'', ''A B''), (''10.0.0.6'', ''A'')]"
    by code_simp
  have 8: "groups (main_generate [''A B'', ''A''] sample_nested) = []"
    by code_simp
  have 9: "groups (main_generate [''A'', ''A B''] sample_nested) = []"
    by code_simp
  from 1 2 3 4 5 6 7 8 9 show ?thesis by blast
qed

text \<open>
  Where the labels are unambiguous the loop of lines 209-222 does what the
  specification says, in every visiting order.
\<close>

lemma rename_first_unique:
  "length (filter (\<lambda>ob. Tag ob = t) obs) \<le> 1 \<Longrightarrow>
   rename_first t region obs = map (\<lambda>ob. if Tag ob = t then ob\<lparr>Tag := region\<rparr> else ob) obs"
proof (induction obs)
  case Nil
  then show ?case by simp
next
  case (Cons ob obs)
  show ?case
  proof (cases "Tag ob = t")
    case True
    with Cons.prems have "filter (\<lambda>ob. Tag ob = t) obs = []" by simp
    then have "map (\<lambda>ob. if Tag ob = t then ob\<lparr>Tag := region\<rparr> else ob) obs = obs"
      by (induction obs) (auto split: if_splits)
    with True show ?thesis by simp
  next
    case False
    with Cons show ?thesis by simp
  qed
qed

lemma collapse_step_single:
  fixes obs :: "TrojanOutbound list" and D :: "string set"
  defines "single \<equiv> \<lambda>region. length (member_labels obs region) = 1"
  defines "f \<equiv> \<lambda>D ob. if single (extractRegion (Tag ob)) \<and> extractRegion (Tag ob) \<in> D
                        then ob\<lparr>Tag := extractRegion (Tag ob)\<rparr> else ob"
  assumes na: "unambiguous_labels obs" and x: "x \<notin> D" and t: "member_labels obs x = [t]"
  shows "rename_first t x (map (f D) obs) = map (f (insert x D)) obs"
proof -
  have sx: "single x" using t by (simp add: single_def)
  have region_x: "Tag ob = t" if "ob \<in> set obs" "extractRegion (Tag ob) = x" for ob
  proof -
    from that have "Tag ob \<in> set (member_labels obs x)"
      by (auto simp: member_labels_def)
    with t show ?thesis by simp
  qed
  have rt: "extractRegion t = x"
  proof -
    from t have "t \<in> set (member_labels obs x)" by simp
    then show ?thesis by (auto simp: member_labels_def)
  qed
  have hit: "Tag (f D ob) = t \<longleftrightarrow> extractRegion (Tag ob) = x" if ob: "ob \<in> set obs" for ob
  proof (cases "single (extractRegion (Tag ob)) \<and> extractRegion (Tag ob) \<in> D")
    case True
    then have ne: "extractRegion (Tag ob) \<noteq> x" using x by auto
    have "extractRegion (Tag ob) \<noteq> t"
    proof
      assume eq: "extractRegion (Tag ob) = t"
      from t have "t \<in> set (member_labels obs x)" by simp
      then obtain a where a: "a \<in> set obs" "Tag a = t" "extractRegion (Tag a) = x"
        by (auto simp: member_labels_def)
      from na a(1) ob True sx a(2,3) eq have "Tag ob = Tag a"
        unfolding unambiguous_labels_def single_def by metis
      with a(2) rt ne show False by simp
    qed
    with True ne show ?thesis by (simp add: f_def)
  next
    case False
    then have "f D ob = ob" by (auto simp: f_def)
    with region_x [OF ob] rt show ?thesis by auto
  qed
  have "filter (\<lambda>ob. Tag ob = t) (map (f D) obs) =
        map (f D) (filter (\<lambda>ob. extractRegion (Tag ob) = x) obs)"
    using hit by (simp add: filter_map o_def cong: filter_cong)
  also have "length \<dots> = length (member_labels obs x)"
    by (simp add: member_labels_def)
  finally have "length (filter (\<lambda>ob. Tag ob = t) (map (f D) obs)) \<le> 1"
    using t by simp
  then have "rename_first t x (map (f D) obs) =
      map (\<lambda>ob. if Tag ob = t then ob\<lparr>Tag := x\<rparr> else ob) (map (f D) obs)"
    by (rule rename_first_unique)
  also have "\<dots> = map (f (insert x D)) obs"
  proof -
    have pt: "((\<lambda>ob. if Tag ob = t then ob\<lparr>Tag := x\<rparr> else ob) \<circ> f D) ob = f (insert x D) ob"
      if ob: "ob \<in> set obs" for ob
    proof (cases "extractRegion (Tag ob) = x")
      case True
      with x have "f D ob = ob" by (auto simp: f_def)
      with True hit [OF ob] sx show ?thesis by (simp add: f_def)
    next
      case False
      with hit [OF ob] show ?thesis by (simp add: f_def)
    qed
    show ?thesis unfolding map_map by (rule map_cong [OF refl pt])
  qed
  finally show ?thesis .
qed

lemma main_collapse_unambiguous:
  assumes na: "unambiguous_labels obs"
    and order: "range_order (regionTags (main_regions obs)) order"
  shows "fst (main_collapse order (obs, regionTags (main_regions obs))) = collapse_labels obs"
proof -
  let ?m = "regionTags (main_regions obs)"
  let ?single = "\<lambda>region. length (member_labels obs region) = 1"
  let ?f = "\<lambda>D ob. if ?single (extractRegion (Tag ob)) \<and> extractRegion (Tag ob) \<in> D
                    then ob\<lparr>Tag := extractRegion (Tag ob)\<rparr> else ob"
  let ?mD = "\<lambda>D region. if region \<in> D \<and> ?single region then Some [region] else ?m region"
  have step: "collapse_region x (map (?f D) obs, ?mD D) = (map (?f (insert x D)) obs, ?mD (insert x D))"
    if "x \<notin> D" for x D
  proof (cases "?single x")
    case True
    then obtain t where t: "member_labels obs x = [t]"
      by (cases "member_labels obs x") auto
    then have mx: "?m x = Some [t]" using main_regions_eq [of obs] by simp
    from collapse_step_single [OF na that t]
    have "rename_first t x (map (?f D) obs) = map (?f (insert x D)) obs" .
    moreover have "(?mD D)(x \<mapsto> [t][0 := x]) = ?mD (insert x D)"
      using True by (auto simp: fun_eq_iff)
    ultimately show ?thesis
      using that mx by (simp add: collapse_region_def)
  next
    case False
    then have same: "map (?f (insert x D)) obs = map (?f D) obs" "?mD (insert x D) = ?mD D"
      by (auto simp: fun_eq_iff)
    have "?m x = None \<or> (\<exists>tags. ?m x = Some tags \<and> length tags \<noteq> 1)"
      using False main_regions_eq [of obs] by simp
    with that same show ?thesis
      by (auto simp: collapse_region_def)
  qed
  have run: "distinct xs \<Longrightarrow> set xs \<inter> D = {} \<Longrightarrow>
      fold collapse_region xs (map (?f D) obs, ?mD D) =
        (map (?f (D \<union> set xs)) obs, ?mD (D \<union> set xs))" for xs D
  proof (induction xs arbitrary: D)
    case Nil
    then show ?case by simp
  next
    case (Cons x xs)
    from Cons.prems have x: "x \<notin> D" and d: "distinct xs" and i: "set xs \<inter> insert x D = {}"
      by auto
    from Cons.IH [OF d i] step [OF x] show ?case
      by (simp add: Un_commute insert_commute)
  qed
  from order have d: "distinct order" and s: "set order = dom ?m"
    by (simp_all add: range_order_def)
  have start: "(obs, ?m) = (map (?f {}) obs, ?mD {})"
    by (simp add: map_idI)
  have "main_collapse order (obs, ?m) = (map (?f (set order)) obs, ?mD (set order))"
    unfolding main_collapse_def start using run [OF d, of "{}"] by simp
  moreover have "extractRegion (Tag ob) \<in> set order" if "ob \<in> set obs" for ob
  proof -
    from that have "member_labels obs (extractRegion (Tag ob)) \<noteq> []"
      by (auto simp: member_labels_def filter_empty_conv)
    then show ?thesis
      using s main_regions_eq [of obs] by (auto simp: dom_def)
  qed
  ultimately show ?thesis
    by (simp add: collapse_labels_def cong: map_cong)
qed

lemma single_member_gets_region_key:
  assumes "unambiguous_labels obs"
    and "range_order (regionTags (main_regions obs)) order"
    and "i < length obs"
    and "length (member_labels obs (extractRegion (Tag (obs ! i)))) = 1"
  shows "Tag (servers (main_generate order obs) ! i) = extractRegion (Tag (obs ! i))"
  using assms(3,4) main_collapse_unambiguous [OF assms(1,2)]
  by (simp add: main_generate_def Let_def collapse_labels_def)

lemma sample_nested_ambiguous: "\<not> unambiguous_labels sample_nested"
proof -
  have obs: "sample_nested =
      [sample_record ''10.0.0.5'' 443 ''A B C'', sample_record ''10.0.0.6'' 443 ''A B'']"
    by code_simp
  have "length (member_labels sample_nested ''A B'') = 1"
    "length (member_labels sample_nested ''A'') = 1"
    "extractRegion ''A B C'' = ''A B''" "extractRegion ''A B'' = ''A''"
    by code_simp+
  then show ?thesis
    unfolding unambiguous_labels_def obs
    by (auto simp: sample_record_def)
qed

subsection \<open>The template\<close>

lemma loadSelectors_loop_Inr:
  "loadSelectors_loop env raws acc = Inr res \<longleftrightarrow>
   (\<exists>es. res = acc @ es \<and> map (load_entry env) raws = map Inr es)"
proof (induction raws arbitrary: acc)
  case Nil
  then show ?case by auto
next
  case (Cons raw raws)
  show ?case
  proof (cases "load_entry env raw")
    case (Inl err)
    then have "loadSelectors_loop env (raw # raws) acc = Inl err"
      by (auto simp: load_entry_def split: sum.splits if_splits)
    with Inl show ?thesis by (auto simp: map_eq_Cons_conv)
  next
    case (Inr e)
    then have "loadSelectors_loop env (raw # raws) acc = loadSelectors_loop env raws (acc @ [e])"
      by (auto simp: load_entry_def split: sum.splits if_splits)
    with Inr Cons [of "acc @ [e]"] show ?thesis
      by (auto simp: map_eq_Cons_conv Cons_eq_map_conv)
  qed
qed

lemma loadSelectors_loop_Inl:
  "raw \<in> set raws \<Longrightarrow> load_entry env raw = Inl err \<Longrightarrow>
   \<exists>err'. loadSelectors_loop env raws acc = Inl err'"
proof -
  assume "raw \<in> set raws" "load_entry env raw = Inl err"
  then obtain i where i: "i < length raws" "load_entry env (raws ! i) = Inl err"
    by (auto simp: in_set_conv_nth)
  have "\<not> (\<exists>es. map (load_entry env) raws = map Inr es)"
  proof
    assume "\<exists>es. map (load_entry env) raws = map Inr es"
    then obtain es where es: "map (load_entry env) raws = map Inr es" ..
    then have "length raws = length es" by (metis length_map)
    with es i(1) have "load_entry env (raws ! i) = Inr (es ! i)" by (metis nth_map)
    with i(2) show False by simp
  qed
  then have "\<not> (\<exists>res. loadSelectors_loop env raws acc = Inr res)"
    by (auto simp: loadSelectors_loop_Inr)
  then show ?thesis by (cases "loadSelectors_loop env raws acc") auto
qed

lemma loadSelectors_entries:
  assumes "loadSelectors env path = Inr selectors" and "os_ReadFile env path = Inr data"
    and "json_config env data = Inr raws"
  shows "map (load_entry env) raws = map Inr selectors"
  using assms by (simp add: loadSelectors_def loadSelectors_loop_Inr)

lemma main_selectors_entries:
  assumes "main_selectors env keys = Inr merged"
    and "os_ReadFile env ''config/selectors.scheme.json'' = Inr data"
    and "json_config env data = Inr raws"
  shows "length merged = length raws \<and>
         (\<forall>i < length raws. \<exists>e. load_entry env (raws ! i) = Inr e \<and> merged ! i = merge_entry keys e)"
proof -
  from assms(1) obtain selectors
    where load: "loadSelectors env ''config/selectors.scheme.json'' = Inr selectors"
      and merged: "merged = map (merge_entry keys) selectors"
    by (auto simp: main_selectors_def split: sum.splits)
  from loadSelectors_entries [OF load assms(2,3)]
  have eq: "map (load_entry env) raws = map Inr selectors" .
  then have len: "length raws = length selectors"
    by (metis length_map)
  have "load_entry env (raws ! i) = Inr (selectors ! i)" if "i < length raws" for i
    using eq that len by (metis nth_map)
  with len merged show ?thesis by auto
qed

text \<open>
  C8.  When the template is read and decoded, the merged list has one entry for each
  entry of the template, in the same order, and an entry whose \<^verbatim>\<open>type\<close> is not
  \<^verbatim>\<open>selector\<close> is in the merged list the \<^verbatim>\<open>json.RawMessage\<close> it is in the template,
  byte for byte.
\<close>

theorem raw_entries_pass_through:
  "main_selectors env keys = Inr merged \<Longrightarrow>
   os_ReadFile env ''config/selectors.scheme.json'' = Inr data \<Longrightarrow>
   json_config env data = Inr raws \<Longrightarrow>
   length merged = length raws \<and>
   (\<forall>i < length raws. \<forall>t. json_base env (raws ! i) = Inr t \<and> t \<noteq> ''selector'' \<longrightarrow>
      merged ! i = RawMessage (raws ! i))"
proof -
  assume a: "main_selectors env keys = Inr merged"
    "os_ReadFile env ''config/selectors.scheme.json'' = Inr data"
    "json_config env data = Inr raws"
  from main_selectors_entries [OF a]
  have len: "length merged = length raws"
    and each: "\<And>i. i < length raws \<Longrightarrow>
      \<exists>e. load_entry env (raws ! i) = Inr e \<and> merged ! i = merge_entry keys e"
    by blast+
  have "merged ! i = RawMessage (raws ! i)"
    if "i < length raws" "json_base env (raws ! i) = Inr t" "t \<noteq> ''selector''" for i t
    using each [OF that(1)] that(2,3) by (auto simp: load_entry_def)
  with len show ?thesis by blast
qed

lemma sample_env_merged:
  "main_selectors sample_env [''SG'', ''direct'', ''JP''] =
     Inr [Selector \<lparr>Type = ''selector'', Tag = ''proxy'', Outbounds = [''direct'', ''SG'', ''JP'']\<rparr>,
          Selector \<lparr>Type = ''selector'', Tag = ''proxy'', Outbounds = [''direct'', ''SG'', ''JP'']\<rparr>,
          RawMessage sample_direct]"
  by code_simp

theorem raw_entries_pass_through_witness:
  "(\<exists>merged. main_selectors sample_env [''SG'', ''direct'', ''JP''] = Inr merged \<and>
      length merged = 3 \<and> merged ! 2 = RawMessage sample_direct) \<and>
   json_base sample_env sample_direct = Inr ''direct''"
proof -
  let ?raws = "[sample_selector_a, sample_selector_b, sample_direct]"
  obtain merged where m: "main_selectors sample_env [''SG'', ''direct'', ''JP''] = Inr merged"
    using sample_env_merged by blast
  have r: "os_ReadFile sample_env ''config/selectors.scheme.json'' = Inr sample_template"
    by (simp add: sample_env_def)
  have c: "json_config sample_env sample_template = Inr ?raws"
    by (simp add: sample_env_def)
  have b: "json_base sample_env (?raws ! 2) = Inr ''direct''"
    by code_simp
  from raw_entries_pass_through [OF m r c] b
  have "length merged = 3 \<and> merged ! 2 = RawMessage sample_direct"
    by simp
  with m b show ?thesis by simp
qed

text \<open>
  C9, as it stands, fails.  The two selector entries of the sample template differ in
  their field \<^verbatim>\<open>default\<close>; their merged entries are the same record of a type, a tag
  and a member list, so the field is in neither.
\<close>

theorem selector_other_fields_counterexample:
  "sample_selector_a \<noteq> sample_selector_b \<and>
   json_config sample_env sample_template =
     Inr [sample_selector_a, sample_selector_b, sample_direct] \<and>
   main_selectors sample_env [''SG'', ''direct'', ''JP''] =
     Inr [Selector \<lparr>Type = ''selector'', Tag = ''proxy'', Outbounds = [''direct'', ''SG'', ''JP'']\<rparr>,
          Selector \<lparr>Type = ''selector'', Tag = ''proxy'', Outbounds = [''direct'', ''SG'', ''JP'']\<rparr>,
          RawMessage sample_direct]"
proof -
  have "sample_selector_a \<noteq> sample_selector_b"
    by (simp add: sample_selector_a_def sample_selector_b_def)
  moreover have "json_config sample_env sample_template =
     Inr [sample_selector_a, sample_selector_b, sample_direct]"
    by (simp add: sample_env_def)
  ultimately show ?thesis
    using sample_env_merged by simp
qed

text \<open>
  C9, amended.  For a template entry whose \<^verbatim>\<open>type\<close> is \<^verbatim>\<open>selector\<close>, the merged entry
  is the record of the three fields the decoder reads into \<^verbatim>\<open>SelectorOutbound\<close>: the
  type and the tag as decoded, and the decoded member list followed by the region keys
  that are not in it, each once, in their order.  No other field of the template entry
  is in the merged entry.
\<close>

theorem selector_entries_merged:
  "main_selectors env keys = Inr merged \<Longrightarrow>
   os_ReadFile env ''config/selectors.scheme.json'' = Inr data \<Longrightarrow>
   json_config env data = Inr raws \<Longrightarrow>
   i < length raws \<Longrightarrow>
   json_base env (raws ! i) = Inr ''selector'' \<Longrightarrow>
   \<exists>sel. json_selector env (raws ! i) = Inr sel \<and>
     merged ! i =
       Selector \<lparr>Type = Type sel, Tag = Tag sel,
                 Outbounds = Outbounds sel @
                   filter (\<lambda>k. k \<notin> set (Outbounds sel)) (discovery_order keys)\<rparr>"
proof -
  assume a: "main_selectors env keys = Inr merged"
    "os_ReadFile env ''config/selectors.scheme.json'' = Inr data"
    "json_config env data = Inr raws"
    and i: "i < length raws" and sel: "json_base env (raws ! i) = Inr ''selector''"
  from main_selectors_entries [OF a] i
  obtain e where e: "load_entry env (raws ! i) = Inr e" "merged ! i = merge_entry keys e"
    by blast
  from e(1) sel obtain s where s: "json_selector env (raws ! i) = Inr s" "e = Selector s"
    by (auto simp: load_entry_def split: sum.splits)
  have "merge_entry keys (Selector s) =
      Selector \<lparr>Type = Type s, Tag = Tag s,
                Outbounds = Outbounds s @ filter (\<lambda>k. k \<notin> set (Outbounds s)) (discovery_order keys)\<rparr>"
    by (cases s) (simp add: appendUnique_eq)
  with e(2) s show ?thesis by simp
qed

theorem selector_entries_merged_witness:
  "json_base sample_env sample_selector_a = Inr ''selector'' \<and>
   (\<exists>merged sel. main_selectors sample_env [''SG'', ''direct'', ''JP''] = Inr merged \<and>
      json_selector sample_env sample_selector_a = Inr sel \<and>
      merged ! 0 =
        Selector \<lparr>Type = Type sel, Tag = Tag sel,
                  Outbounds = Outbounds sel @
                    filter (\<lambda>k. k \<notin> set (Outbounds sel))
                      (discovery_order [''SG'', ''direct'', ''JP''])\<rparr>)"
proof -
  let ?raws = "[sample_selector_a, sample_selector_b, sample_direct]"
  obtain merged where m: "main_selectors sample_env [''SG'', ''direct'', ''JP''] = Inr merged"
    using sample_env_merged by blast
  have r: "os_ReadFile sample_env ''config/selectors.scheme.json'' = Inr sample_template"
    by (simp add: sample_env_def)
  have c: "json_config sample_env sample_template = Inr ?raws"
    by (simp add: sample_env_def)
  have b: "json_base sample_env (?raws ! 0) = Inr ''selector''"
    by (simp add: sample_env_def)
  have i: "0 < length ?raws" by simp
  from selector_entries_merged [OF m r c i b] m b show ?thesis
    by auto
qed

text \<open>
  C10.  For every path, \<^verbatim>\<open>loadSelectors\<close> returns no entry and no error when the file
  does not exist; it returns the error when the file cannot be read for another reason,
  when its content does not decode, and when one of its entries does not decode.  In
  \<^verbatim>\<open>main\<close> an error of \<^verbatim>\<open>loadSelectors\<close> ends the run, and a missing template gives
  an empty list of selectors.
\<close>

theorem loadSelectors_missing_or_malformed:
  "(os_ReadFile env path = Inl err \<and> os_IsNotExist err \<longrightarrow> loadSelectors env path = Inr []) \<and>
   (os_ReadFile env path = Inl err \<and> \<not> os_IsNotExist err \<longrightarrow>
      loadSelectors env path = Inl err) \<and>
   (os_ReadFile env path = Inr data \<and> json_config env data = Inl err \<longrightarrow>
      loadSelectors env path = Inl err) \<and>
   (os_ReadFile env path = Inr data \<and> json_config env data = Inr raws \<and>
    raw \<in> set raws \<and> load_entry env raw = Inl err \<longrightarrow>
      (\<exists>err'. loadSelectors env path = Inl err')) \<and>
   (loadSelectors env ''config/selectors.scheme.json'' = Inl err \<longrightarrow>
      main_selectors env keys = Inl err) \<and>
   (loadSelectors env ''config/selectors.scheme.json'' = Inr [] \<longrightarrow>
      main_selectors env keys = Inr [])"
  using loadSelectors_loop_Inl [of raw raws env err "[]"]
  by (auto simp: loadSelectors_def main_selectors_def)

theorem loadSelectors_missing_or_malformed_witness:
  "os_IsNotExist ErrNotExist \<and>
   loadSelectors (sample_env\<lparr>os_ReadFile := \<lambda>path. Inl ErrNotExist\<rparr>)
     ''config/selectors.scheme.json'' = Inr [] \<and>
   main_selectors (sample_env\<lparr>os_ReadFile := \<lambda>path. Inl ErrNotExist\<rparr>) [''SG''] = Inr [] \<and>
   loadSelectors (sample_env\<lparr>json_config := \<lambda>data. Inl ErrJSON\<rparr>)
     ''config/selectors.scheme.json'' = Inl ErrJSON \<and>
   main_selectors (sample_env\<lparr>json_config := \<lambda>data. Inl ErrJSON\<rparr>) [''SG''] = Inl ErrJSON \<and>
   (\<exists>err'. loadSelectors (sample_env\<lparr>json_selector := \<lambda>raw. Inl ErrJSON\<rparr>)
     ''config/selectors.scheme.json'' = Inl err')"
proof -
  let ?p = "''config/selectors.scheme.json''"
  let ?missing = "sample_env\<lparr>os_ReadFile := \<lambda>path. Inl ErrNotExist\<rparr>"
  let ?broken = "sample_env\<lparr>json_config := \<lambda>data. Inl ErrJSON\<rparr>"
  let ?entry = "sample_env\<lparr>json_selector := \<lambda>raw. Inl ErrJSON\<rparr>"
  have ne: "os_IsNotExist ErrNotExist" by (simp add: os_IsNotExist_def)
  have 1: "os_ReadFile ?missing ?p = Inl ErrNotExist" by simp
  have 2: "os_ReadFile ?broken ?p = Inr sample_template"
    "json_config ?broken sample_template = Inl ErrJSON"
    by (simp_all add: sample_env_def)
  have 3: "os_ReadFile ?entry ?p = Inr sample_template"
    "json_config ?entry sample_template = Inr [sample_selector_a, sample_selector_b, sample_direct]"
    "load_entry ?entry sample_selector_a = Inl ErrJSON"
    by (simp_all add: sample_env_def load_entry_def)
  from loadSelectors_missing_or_malformed [of ?missing ?p ErrNotExist]
  have a: "loadSelectors ?missing ?p = Inr []" "main_selectors ?missing [''SG''] = Inr []"
    using ne 1 by blast+
  from loadSelectors_missing_or_malformed [of ?broken ?p ErrJSON sample_template]
  have b: "loadSelectors ?broken ?p = Inl ErrJSON" "main_selectors ?broken [''SG''] = Inl ErrJSON"
    using 2 by blast+
  from loadSelectors_missing_or_malformed [of ?entry ?p ErrJSON sample_template
      "[sample_selector_a, sample_selector_b, sample_direct]" sample_selector_a]
  have c: "\<exists>err'. loadSelectors ?entry ?p = Inl err'"
    using 3 by simp
  from ne a b c show ?thesis by blast
qed

end
